theory Spec2Isabelle
  imports Complex_Main
begin

section \<open>The retry policy\<close>

text \<open>
  \<^verbatim>\<open>backoffPolicy(initialDelay, maxDelay, factor, jitter)\<close> of \<^verbatim>\<open>_connect.py\<close> returns the
  closure \<^verbatim>\<open>policy(attempt) = min(initialDelay * (factor ** attempt), maxDelay) + jitter()\<close>.
  Delays are Python floats; they are modelled as real numbers, the attempt count as a
  natural number, and the zero-argument callable \<open>jitter\<close> as a function on \<open>unit\<close>.
\<close>

definition backoffPolicy :: "real \<Rightarrow> real \<Rightarrow> real \<Rightarrow> (unit \<Rightarrow> real) \<Rightarrow> nat \<Rightarrow> real" where
  "backoffPolicy initialDelay maxDelay factor jitter attempt =
     min (initialDelay * (factor ^ attempt)) maxDelay + jitter ()"

section \<open>The disconnect-notifying proxy\<close>

text \<open>
  Python objects (protocols, addresses, close reasons, exceptions, return values) are
  identified by natural numbers. A call either returns a value (\<open>Inr\<close>) or raises an
  exception (\<open>Inl\<close>).

  \<^verbatim>\<open>_ReconnectingProtocolProxy\<close> holds the wrapped protocol \<^verbatim>\<open>_protocol\<close> and the callable
  \<^verbatim>\<open>_lostNotification\<close>. The \<^verbatim>\<open>connectionLost\<close> method of the wrapped protocol belongs to
  the application; it is a parameter, applied to the protocol object and the reason. The
  calls made on the two collaborators are recorded in the order in which they are made.
\<close>

type_synonym obj = nat

datatype call = ProtocolConnectionLost obj obj | LostNotification obj

record proxy =
  protocol :: obj
  lostNotification :: "obj \<Rightarrow> obj + unit"

text \<open>
  \<^verbatim>\<open>try: return self._protocol.connectionLost(reason)
  finally: self._lostNotification(reason)\<close>

  The body of the \<^verbatim>\<open>try\<close> runs first; the \<^verbatim>\<open>finally\<close> block runs after it, whether it
  returned or raised; an exception raised by the \<^verbatim>\<open>finally\<close> block replaces the outcome of
  the body.
\<close>

definition connectionLost ::
  "(obj \<Rightarrow> obj \<Rightarrow> obj + obj) \<Rightarrow> proxy \<Rightarrow> obj \<Rightarrow> (obj + obj) \<times> call list" where
  "connectionLost protocol_connectionLost self reason =
     (let body = protocol_connectionLost (protocol self) reason;
          calls = [ProtocolConnectionLost (protocol self) reason];
          final = lostNotification self reason;
          calls = calls @ [LostNotification reason]
      in (case final of Inl e \<Rightarrow> (Inl e, calls) | Inr _ \<Rightarrow> (body, calls)))"

text \<open>
  \<^verbatim>\<open>_DisconnectFactory.buildProtocol(addr)\<close> wraps what the application's factory builds.
\<close>

record disconnectFactory =
  protocolFactory :: "obj \<Rightarrow> obj"
  protocolDisconnected :: "obj \<Rightarrow> obj + unit"

definition buildProtocol :: "disconnectFactory \<Rightarrow> obj \<Rightarrow> proxy" where
  "buildProtocol self addr =
     \<lparr> protocol = protocolFactory self addr,
       lostNotification = protocolDisconnected self \<rparr>"

section \<open>The client machine\<close>

text \<open>
  The eight states and eight inputs of \<^verbatim>\<open>_ClientMachine\<close>.
\<close>

datatype mstate =
  S_init | S_connecting_first_time | S_connecting | S_waiting
  | S_connected | S_disconnecting | S_restarting | S_stopped

text \<open>
  What an input or an output can raise: \<^verbatim>\<open>NoTransition\<close> of Automat, \<^verbatim>\<open>AttributeError\<close>,
  and \<^verbatim>\<open>AlreadyCalled\<close> or \<^verbatim>\<open>AlreadyCancelled\<close> of a delayed call (one value,
  \<open>AlreadyCalled\<close>). \<open>NotEnabled\<close> is not an exception: it marks an event of a collaborator
  that cannot occur. A failure is a cancellation, an error of the connection attempt, or
  an exception that a callback raised.
\<close>

datatype error = NoTransition | AttributeError | AlreadyCalled | NotEnabled

datatype failure = CancelledError | ConnectError obj | Thrown error

datatype input =
  Start | StartAndFailTheFirstTime | Stop
  | ConnectionMade proxy | ConnectionFailed failure
  | Reconnect | ClientDisconnected | WhenConnected

text \<open>
  A \<^verbatim>\<open>Deferred\<close> created by the machine is identified by a number. What a Deferred fires
  with is a protocol, a failure, or \<^verbatim>\<open>None\<close>.

  An input returns the list of its outputs' results (all \<^verbatim>\<open>None\<close>; \<open>NoneList n\<close>) or, with
  the collector \<^verbatim>\<open>_firstResult\<close>, the result of its first output: a Deferred that has fired
  already when it was built (\<^verbatim>\<open>succeed\<close>, \<^verbatim>\<open>fail\<close>) or one of the machine's own Deferreds.
  An input raises what one of its outputs raises, or \<^verbatim>\<open>NoTransition\<close> (\<open>Raised\<close>).
\<close>

type_synonym deferred = nat

datatype outcome = Protocol obj | Failed failure | FiredNone

datatype returned = NoneList nat | AlreadyFired outcome | TheDeferred deferred | Raised error

datatype handle = Fired | Unfired

text \<open>
  The attributes of the machine, followed by the part of its collaborators that the machine
  acts on:
  \<^item> \<open>currentConnection\<close> and \<open>retryCall\<close> are instance attributes that \<^verbatim>\<open>del\<close> removes
    (\<open>None\<close>: the instance has no such attribute); \<open>retryCall\<close> holds the delay of the call;
  \<^item> \<open>connectionInProgress\<close> is the Deferred of the last connection attempt
    (\<^verbatim>\<open>succeed(None)\<close> at first: \<open>Fired\<close>);
  \<^item> \<open>nextDeferred\<close> is the identity of the next Deferred to be created and \<open>fired\<close> the
    log of the Deferreds fired so far, with what they fired with, in order;
  \<^item> \<open>pendingConnects\<close> counts the endpoint's connection attempts whose Deferred has not
    fired, \<open>pendingCalls\<close> lists the delays of the clock's delayed calls that are neither
    called nor cancelled, \<open>openConnections\<close> counts the connections that were made and are
    not lost yet, \<open>loseConnectionCalls\<close> counts the calls of \<^verbatim>\<open>transport.loseConnection\<close>.
\<close>

record machine =
  state :: mstate
  failedAttempts :: nat
  timeoutForAttempt :: "nat \<Rightarrow> real"
  connectionInProgress :: handle
  currentConnection :: "obj option"
  retryCall :: "real option"
  awaitingConnected :: "deferred list"
  stopWaiters :: "deferred list"
  nextDeferred :: deferred
  fired :: "(deferred \<times> outcome) list"
  pendingConnects :: nat
  pendingCalls :: "real list"
  openConnections :: nat
  loseConnectionCalls :: nat

text \<open>\<^verbatim>\<open>_ClientMachine.__init__\<close>, in the initial state \<^verbatim>\<open>_init\<close>.\<close>

definition init :: "(nat \<Rightarrow> real) \<Rightarrow> machine" where
  "init retryPolicy =
     \<lparr> state = S_init, failedAttempts = 0, timeoutForAttempt = retryPolicy,
       connectionInProgress = Fired, currentConnection = None, retryCall = None,
       awaitingConnected = [], stopWaiters = [], nextDeferred = 0, fired = [],
       pendingConnects = 0, pendingCalls = [], openConnections = 0,
       loseConnectionCalls = 0 \<rparr>"

subsection \<open>Outputs\<close>

text \<open>
  \<^verbatim>\<open>_unawait(value)\<close>: the list of waiters is replaced by a new empty list, then the
  Deferreds of the old list are fired in order. Firing a Deferred runs the callbacks its
  consumer attached; \<open>cb w\<close> is what the callbacks of \<open>w\<close> do to the machine.
\<close>

fun fire_each :: "(deferred \<Rightarrow> machine \<Rightarrow> machine) \<Rightarrow> outcome \<Rightarrow> deferred list \<Rightarrow> machine \<Rightarrow> machine" where
  "fire_each cb v [] m = m"
| "fire_each cb v (w # waiting) m =
     fire_each cb v waiting (cb w (m\<lparr>fired := fired m @ [(w, v)]\<rparr>))"

definition unawait :: "(deferred \<Rightarrow> machine \<Rightarrow> machine) \<Rightarrow> outcome \<Rightarrow> machine \<Rightarrow> machine" where
  "unawait cb v m = fire_each cb v (awaitingConnected m) (m\<lparr>awaitingConnected := []\<rparr>)"

text \<open>Deferreds whose callbacks do not act on the machine.\<close>

definition detached :: "deferred \<Rightarrow> machine \<Rightarrow> machine" where
  "detached w m = m"

text \<open>
  An output either returns, with the machine as it has changed it, or raises (\<open>Inl\<close>),
  and then it has not changed the machine. The outputs that cannot raise are functions on
  the machine.
\<close>

definition connect :: "machine \<Rightarrow> machine" where
  "connect m = m\<lparr>connectionInProgress := Unfired, pendingConnects := pendingConnects m + 1\<rparr>"

definition resetFailedAttempts :: "machine \<Rightarrow> machine" where
  "resetFailedAttempts m = m\<lparr>failedAttempts := 0\<rparr>"

definition waitForStop :: "machine \<Rightarrow> deferred \<times> machine" where
  "waitForStop m =
     (nextDeferred m,
      m\<lparr>stopWaiters := stopWaiters m @ [nextDeferred m], nextDeferred := nextDeferred m + 1\<rparr>)"

text \<open>
  \<^verbatim>\<open>self._retryCall.cancel()\<close> raises \<^verbatim>\<open>AttributeError\<close> when the instance has no
  \<^verbatim>\<open>_retryCall\<close>, and the delayed call raises when it is no longer pending.
\<close>

definition stopRetrying :: "machine \<Rightarrow> error + machine" where
  "stopRetrying m =
     (case retryCall m of
        None \<Rightarrow> Inl AttributeError
      | Some delay \<Rightarrow>
          if delay \<in> set (pendingCalls m)
          then Inr (m\<lparr>pendingCalls := remove1 delay (pendingCalls m), retryCall := None\<rparr>)
          else Inl AlreadyCalled)"

definition disconnect :: "machine \<Rightarrow> error + machine" where
  "disconnect m =
     (case currentConnection m of
        None \<Rightarrow> Inl AttributeError
      | Some p \<Rightarrow> Inr (m\<lparr>loseConnectionCalls := loseConnectionCalls m + 1\<rparr>))"

definition notifyWaiters :: "proxy \<Rightarrow> machine \<Rightarrow> machine" where
  "notifyWaiters p m =
     (let m = m\<lparr>failedAttempts := 0\<rparr>;
          m = m\<lparr>currentConnection := Some (protocol p)\<rparr>
      in unawait detached (Protocol (protocol p)) m)"

definition notifyInitialConnectionFailed :: "failure \<Rightarrow> machine \<Rightarrow> machine" where
  "notifyInitialConnectionFailed f m = unawait detached (Failed f) m"

definition wait :: "machine \<Rightarrow> machine" where
  "wait m =
     (let m = m\<lparr>failedAttempts := failedAttempts m + 1\<rparr>;
          delay = timeoutForAttempt m (failedAttempts m)
      in m\<lparr>retryCall := Some delay, pendingCalls := pendingCalls m @ [delay]\<rparr>)"

definition forgetConnection :: "machine \<Rightarrow> error + machine" where
  "forgetConnection m =
     (case currentConnection m of
        None \<Rightarrow> Inl AttributeError
      | Some p \<Rightarrow> Inr (m\<lparr>currentConnection := None\<rparr>))"

definition cancelConnectWaiters :: "machine \<Rightarrow> machine" where
  "cancelConnectWaiters m = unawait detached (Failed CancelledError) m"

definition finishStopping :: "machine \<Rightarrow> machine" where
  "finishStopping m =
     fire_each detached FiredNone (stopWaiters m) (m\<lparr>stopWaiters := []\<rparr>)"

text \<open>
  The three outputs that take the failure are written as a call of the output without
  it, through the instance: \<^verbatim>\<open>return self._wait()\<close>, \<^verbatim>\<open>return self._cancelConnectWaiters()\<close>,
  \<^verbatim>\<open>return self._finishStopping()\<close>. The attribute read is an output of the machine, and
  Automat raises \<^verbatim>\<open>AttributeError\<close> when an output is read through an instance: the call
  raises before the output runs.
\<close>

definition through_self :: "(machine \<Rightarrow> machine) \<Rightarrow> machine \<Rightarrow> error + machine" where
  "through_self out m = Inl AttributeError"

definition wait1 :: "failure \<Rightarrow> machine \<Rightarrow> error + machine" where
  "wait1 f m = through_self wait m"

definition cancelConnectWaiters1 :: "failure \<Rightarrow> machine \<Rightarrow> error + machine" where
  "cancelConnectWaiters1 f m = through_self cancelConnectWaiters m"

definition finishStopping1 :: "failure \<Rightarrow> machine \<Rightarrow> error + machine" where
  "finishStopping1 f m = through_self finishStopping m"

text \<open>
  \<^verbatim>\<open>succeed(self._currentConnection)\<close>: the attribute of the instance when it has one;
  otherwise the read finds the output of the same name and raises.
\<close>

definition currentConnection_output :: "machine \<Rightarrow> error + returned" where
  "currentConnection_output m =
     (case currentConnection m of
        Some p \<Rightarrow> Inr (AlreadyFired (Protocol p))
      | None \<Rightarrow> Inl AttributeError)"

definition noConnection :: "machine \<Rightarrow> returned" where
  "noConnection m = AlreadyFired (Failed CancelledError)"

definition awaitingConnection :: "machine \<Rightarrow> deferred \<times> machine" where
  "awaitingConnection m =
     (nextDeferred m,
      m\<lparr>awaitingConnected := awaitingConnected m @ [nextDeferred m],
        nextDeferred := nextDeferred m + 1\<rparr>)"

definition deferredSucceededWithNone :: "machine \<Rightarrow> returned" where
  "deferredSucceededWithNone m = AlreadyFired FiredNone"

subsection \<open>Transitions\<close>

text \<open>
  A transition \<^verbatim>\<open>s.upon(input, enter=s', outputs=[\<dots>])\<close> sets the state to \<open>s'\<close> and then
  runs the outputs in order. When an output raises, the outputs after it do not run, the
  input raises, and the machine stays as the outputs before it have left it. An input for
  which the current state has no transition raises \<^verbatim>\<open>NoTransition\<close> and changes nothing.
\<close>

definition enter :: "mstate \<Rightarrow> machine \<Rightarrow> machine" where
  "enter s m = m\<lparr>state := s\<rparr>"

definition plain :: "(machine \<Rightarrow> machine) \<Rightarrow> machine \<Rightarrow> error + machine" where
  "plain out m = Inr (out m)"

fun run_outputs :: "(machine \<Rightarrow> error + machine) list \<Rightarrow> machine \<Rightarrow> error option \<times> machine" where
  "run_outputs [] m = (None, m)"
| "run_outputs (out # outs) m =
     (case out m of Inl e \<Rightarrow> (Some e, m) | Inr m' \<Rightarrow> run_outputs outs m')"

text \<open>
  The default collector returns the list of the results; the collector \<^verbatim>\<open>_firstResult\<close>
  returns the result of the first output, after all outputs have run.
\<close>

definition collect_list :: "(machine \<Rightarrow> error + machine) list \<Rightarrow> machine \<Rightarrow> returned \<times> machine" where
  "collect_list outs m =
     (case run_outputs outs m of
        (Some e, m') \<Rightarrow> (Raised e, m')
      | (None, m') \<Rightarrow> (NoneList (length outs), m'))"

definition collect_first ::
  "(machine \<Rightarrow> error + returned \<times> machine) \<Rightarrow> (machine \<Rightarrow> error + machine) list
     \<Rightarrow> machine \<Rightarrow> returned \<times> machine" where
  "collect_first first outs m =
     (case first m of
        Inl e \<Rightarrow> (Raised e, m)
      | Inr (r, m1) \<Rightarrow>
          (case run_outputs outs m1 of
             (Some e, m') \<Rightarrow> (Raised e, m')
           | (None, m') \<Rightarrow> (r, m')))"

text \<open>The first outputs, with what they return.\<close>

definition returns_deferred :: "(machine \<Rightarrow> deferred \<times> machine) \<Rightarrow> machine \<Rightarrow> error + returned \<times> machine" where
  "returns_deferred out m = Inr (TheDeferred (fst (out m)), snd (out m))"

definition returns_value :: "(machine \<Rightarrow> returned) \<Rightarrow> machine \<Rightarrow> error + returned \<times> machine" where
  "returns_value out m = Inr (out m, m)"

definition returns_or_raises :: "(machine \<Rightarrow> error + returned) \<Rightarrow> machine \<Rightarrow> error + returned \<times> machine" where
  "returns_or_raises out m = (case out m of Inl e \<Rightarrow> Inl e | Inr r \<Rightarrow> Inr (r, m))"

text \<open>
  The events of the collaborators change the collaborators themselves: when the Deferred of
  the attempt in progress fires, the attempt is no longer pending; a connection that was
  made is open until it is lost; a delayed call that is called is no longer pending. Such
  an event can occur only when the collaborator has the attempt, the connection or the
  call. The inputs of the owner and of the consumers can always occur.
\<close>

fun enabled :: "input \<Rightarrow> machine \<Rightarrow> bool" where
  "enabled (ConnectionMade p) m = (connectionInProgress m = Unfired)"
| "enabled (ConnectionFailed f) m = (connectionInProgress m = Unfired)"
| "enabled Reconnect m = (pendingCalls m \<noteq> [])"
| "enabled ClientDisconnected m = (0 < openConnections m)"
| "enabled _ m = True"

fun occur :: "input \<Rightarrow> machine \<Rightarrow> machine" where
  "occur (ConnectionMade p) m =
     m\<lparr>connectionInProgress := Fired, pendingConnects := pendingConnects m - 1,
       openConnections := openConnections m + 1\<rparr>"
| "occur (ConnectionFailed f) m =
     m\<lparr>connectionInProgress := Fired, pendingConnects := pendingConnects m - 1\<rparr>"
| "occur Reconnect m = m\<lparr>pendingCalls := tl (pendingCalls m)\<rparr>"
| "occur ClientDisconnected m = m\<lparr>openConnections := openConnections m - 1\<rparr>"
| "occur _ m = m"

text \<open>
  The transitions on \<^verbatim>\<open>_connectionFailed\<close>, which \<^verbatim>\<open>_stopConnecting\<close> needs: the Deferred
  of an attempt carries \<^verbatim>\<open>.addCallback(self._connectionMade).addErrback(self._connectionFailed)\<close>,
  and cancelling a Deferred that has not fired makes it fire with a failure before
  \<^verbatim>\<open>cancel()\<close> returns (the source notes at the transitions on \<^verbatim>\<open>stop\<close> that this triggers
  \<^verbatim>\<open>_connectionFailed\<close> synchronously, in the state \<^verbatim>\<open>_disconnecting\<close>). What the errback
  raises stays in the Deferred: \<^verbatim>\<open>cancel()\<close> returns. Cancelling a Deferred that has fired
  does nothing.
\<close>

fun upon_connectionFailed :: "mstate \<Rightarrow> failure \<Rightarrow> machine \<Rightarrow> returned \<times> machine" where
  "upon_connectionFailed S_connecting_first_time f m =
     collect_list [plain (notifyInitialConnectionFailed f)] (enter S_stopped m)"
| "upon_connectionFailed S_connecting f m =
     collect_list [wait1 f] (enter S_waiting m)"
| "upon_connectionFailed S_disconnecting f m =
     collect_list [cancelConnectWaiters1 f, finishStopping1 f] (enter S_stopped m)"
| "upon_connectionFailed _ f m = (Raised NoTransition, m)"

definition stopConnecting :: "machine \<Rightarrow> machine" where
  "stopConnecting m =
     (case connectionInProgress m of
        Fired \<Rightarrow> m
      | Unfired \<Rightarrow>
          snd (upon_connectionFailed (state m) CancelledError
                 (occur (ConnectionFailed CancelledError) m)))"

text \<open>The transition table, in the order of the source.\<close>

fun transition :: "mstate \<Rightarrow> input \<Rightarrow> machine \<Rightarrow> returned \<times> machine" where
  "transition S_init Start m = collect_list [plain connect] (enter S_connecting m)"
| "transition S_init StartAndFailTheFirstTime m =
     collect_list [plain connect] (enter S_connecting_first_time m)"
| "transition S_init Stop m =
     collect_first (returns_value deferredSucceededWithNone) [] (enter S_stopped m)"

| "transition S_connecting_first_time Start m =
     collect_list [] (enter S_connecting_first_time m)"
| "transition S_connecting_first_time Stop m =
     collect_first (returns_deferred waitForStop) [plain stopConnecting]
       (enter S_disconnecting m)"
| "transition S_connecting_first_time (ConnectionMade p) m =
     collect_list [plain (notifyWaiters p)] (enter S_connected m)"
| "transition S_connecting_first_time (ConnectionFailed f) m =
     upon_connectionFailed S_connecting_first_time f m"

| "transition S_connecting Start m = collect_list [] (enter S_connecting m)"
| "transition S_connecting Stop m =
     collect_first (returns_deferred waitForStop) [plain stopConnecting]
       (enter S_disconnecting m)"
| "transition S_connecting (ConnectionMade p) m =
     collect_list [plain (notifyWaiters p)] (enter S_connected m)"
| "transition S_connecting (ConnectionFailed f) m = upon_connectionFailed S_connecting f m"

| "transition S_waiting Start m = collect_list [] (enter S_waiting m)"
| "transition S_waiting Stop m =
     collect_first (returns_deferred waitForStop)
       [plain cancelConnectWaiters, stopRetrying, plain finishStopping]
       (enter S_stopped m)"
| "transition S_waiting Reconnect m = collect_list [plain connect] (enter S_connecting m)"

| "transition S_connected Start m = collect_list [] (enter S_connected m)"
| "transition S_connected Stop m =
     collect_first (returns_deferred waitForStop) [disconnect] (enter S_disconnecting m)"
| "transition S_connected ClientDisconnected m =
     collect_list [forgetConnection, plain wait] (enter S_waiting m)"

| "transition S_disconnecting Start m =
     collect_list [plain resetFailedAttempts] (enter S_restarting m)"
| "transition S_disconnecting Stop m =
     collect_first (returns_deferred waitForStop) [] (enter S_disconnecting m)"
| "transition S_disconnecting ClientDisconnected m =
     collect_list [plain cancelConnectWaiters, plain finishStopping, forgetConnection]
       (enter S_stopped m)"
| "transition S_disconnecting (ConnectionFailed f) m =
     upon_connectionFailed S_disconnecting f m"

| "transition S_restarting Start m = collect_list [] (enter S_restarting m)"
| "transition S_restarting Stop m =
     collect_first (returns_deferred waitForStop) [] (enter S_disconnecting m)"
| "transition S_restarting ClientDisconnected m =
     collect_list [plain finishStopping, plain connect] (enter S_connecting m)"

| "transition S_stopped Start m = collect_list [plain connect] (enter S_connecting m)"
| "transition S_stopped Stop m =
     collect_first (returns_value deferredSucceededWithNone) [] (enter S_stopped m)"

| "transition S_init WhenConnected m =
     collect_first (returns_deferred awaitingConnection) [] (enter S_init m)"
| "transition S_connecting_first_time WhenConnected m =
     collect_first (returns_deferred awaitingConnection) [] (enter S_connecting_first_time m)"
| "transition S_connecting WhenConnected m =
     collect_first (returns_deferred awaitingConnection) [] (enter S_connecting m)"
| "transition S_waiting WhenConnected m =
     collect_first (returns_deferred awaitingConnection) [] (enter S_waiting m)"
| "transition S_connected WhenConnected m =
     collect_first (returns_or_raises currentConnection_output) [] (enter S_connected m)"
| "transition S_disconnecting WhenConnected m =
     collect_first (returns_deferred awaitingConnection) [] (enter S_disconnecting m)"
| "transition S_restarting WhenConnected m =
     collect_first (returns_deferred awaitingConnection) [] (enter S_restarting m)"
| "transition S_stopped WhenConnected m =
     collect_first (returns_value noConnection) [] (enter S_stopped m)"

| "transition _ _ m = (Raised NoTransition, m)"

text \<open>
  The Deferred of an attempt that succeeds calls \<^verbatim>\<open>_connectionMade\<close>, and when that raises
  it calls the errback \<^verbatim>\<open>_connectionFailed\<close> with the exception. What \<^verbatim>\<open>_connectionFailed\<close>
  raises stays in the Deferred, with the machine as the exception left it.
\<close>

definition addErrback :: "returned \<times> machine \<Rightarrow> returned \<times> machine" where
  "addErrback rm =
     (case fst rm of
        Raised e \<Rightarrow> upon_connectionFailed (state (snd rm)) (Thrown e) (snd rm)
      | _ \<Rightarrow> rm)"

text \<open>
  One input, and a sequence of inputs from a given machine. An input that raises leaves
  the machine as the exception left it, and the run goes on from there; a run ends
  (\<open>Inl\<close>) at an event that cannot occur.
\<close>

definition step :: "input \<Rightarrow> machine \<Rightarrow> error + returned \<times> machine" where
  "step e m =
     (if enabled e m
      then Inr (case e of
                  ConnectionMade p \<Rightarrow> addErrback (transition (state m) e (occur e m))
                | _ \<Rightarrow> transition (state m) e (occur e m))
      else Inl NotEnabled)"

fun run :: "machine \<Rightarrow> input list \<Rightarrow> error + machine" where
  "run m [] = Inr m"
| "run m (e # es) = (case step e m of Inl err \<Rightarrow> Inl err | Inr (r, m') \<Rightarrow> run m' es)"

subsection \<open>Consumers that register further waiters\<close>

text \<open>
  A callback attached to a waiter's Deferred may ask for the next connection again. The
  callbacks of the Deferred \<open>w\<close> register \<open>k w\<close> further waiters, each by
  \<^verbatim>\<open>_awaitingConnection\<close>.
\<close>

fun register_n :: "nat \<Rightarrow> machine \<Rightarrow> machine" where
  "register_n 0 m = m"
| "register_n (Suc n) m = register_n n (snd (awaitingConnection m))"

definition registering :: "(deferred \<Rightarrow> nat) \<Rightarrow> deferred \<Rightarrow> machine \<Rightarrow> machine" where
  "registering k w m = register_n (k w) m"

subsection \<open>Reading the calls of the proxy and the log of fired Deferreds\<close>

text \<open>\<open>precedes a b cs\<close>: the call \<open>a\<close> is made, and \<open>b\<close> is made after the first \<open>a\<close>.\<close>

definition precedes :: "call \<Rightarrow> call \<Rightarrow> call list \<Rightarrow> bool" where
  "precedes a b cs \<longleftrightarrow> b \<in> set (drop 1 (dropWhile (\<lambda>c. c \<noteq> a) cs))"

text \<open>
  What a completion signal returned by \<^verbatim>\<open>stop\<close> has come to: \<open>resolved\<close> when it has fired
  exactly once, with \<^verbatim>\<open>None\<close>; \<open>pending\<close> when it is a Deferred among the stop waiters
  that has not fired.
\<close>

fun resolved :: "machine \<Rightarrow> returned \<Rightarrow> bool" where
  "resolved m (AlreadyFired v) = (v = FiredNone)"
| "resolved m (TheDeferred d) = (filter (\<lambda>x. fst x = d) (fired m) = [(d, FiredNone)])"
| "resolved m (NoneList n) = False"

fun pending :: "machine \<Rightarrow> returned \<Rightarrow> bool" where
  "pending m (TheDeferred d) = (d \<in> set (stopWaiters m) \<and> d \<notin> fst ` set (fired m))"
| "pending m _ = False"

subsection \<open>Collaborators of a test\<close>

text \<open>
  A deterministic retry policy with a fixed delay, an application factory whose protocol
  for the address \<open>a\<close> is the object \<open>100 + a\<close>, the factory proxy that \<^verbatim>\<open>_connect\<close> hands
  to the endpoint (its notification feeds the input \<^verbatim>\<open>_clientDisconnected\<close> and returns),
  and a protocol whose \<^verbatim>\<open>connectionLost\<close> returns the object 0.
\<close>

definition fixedDelay :: "nat \<Rightarrow> real" where
  "fixedDelay attempt = 1"

definition testFactory :: "obj \<Rightarrow> obj" where
  "testFactory addr = 100 + addr"

definition factoryProxy :: "(obj \<Rightarrow> obj) \<Rightarrow> disconnectFactory" where
  "factoryProxy factory = \<lparr> protocolFactory = factory, protocolDisconnected = (\<lambda>reason. Inr ()) \<rparr>"

definition quietProtocol :: "obj \<Rightarrow> obj \<Rightarrow> obj + obj" where
  "quietProtocol p reason = Inr 0"

definition noJitter :: "unit \<Rightarrow> real" where
  "noJitter u = 0"

subsection \<open>Invariants of the reachable machines\<close>

text \<open>
  The states with a connection attempt in progress, and the states with a connection that
  is made and not lost.
\<close>

fun attempting :: "mstate \<Rightarrow> bool" where
  "attempting S_connecting_first_time = True"
| "attempting S_connecting = True"
| "attempting _ = False"

fun live :: "mstate \<Rightarrow> bool" where
  "live S_connected = True"
| "live S_disconnecting = True"
| "live S_restarting = True"
| "live _ = False"

definition ctrl_inv :: "machine \<Rightarrow> bool" where
  "ctrl_inv m \<longleftrightarrow>
     connectionInProgress m = (if attempting (state m) then Unfired else Fired)
   \<and> pendingConnects m = (if attempting (state m) then 1 else 0)
   \<and> (pendingCalls m = []
        \<or> state m = S_waiting \<and> retryCall m \<noteq> None \<and> pendingCalls m = [the (retryCall m)])
   \<and> openConnections m = (if live (state m) then 1 else 0)
   \<and> (live (state m) \<longrightarrow> currentConnection m \<noteq> None \<and> failedAttempts m = 0)
   \<and> (state m = S_init \<or> state m = S_connecting_first_time \<longrightarrow> currentConnection m = None)"

definition def_inv :: "machine \<Rightarrow> bool" where
  "def_inv m \<longleftrightarrow>
     (\<forall>d \<in> set (awaitingConnected m). d < nextDeferred m)
   \<and> (\<forall>d \<in> set (stopWaiters m). d < nextDeferred m)
   \<and> (\<forall>d \<in> fst ` set (fired m). d < nextDeferred m)
   \<and> distinct (awaitingConnected m @ stopWaiters m @ map fst (fired m))"

text \<open>
  The states a run goes through, the first one included, and the machines in which the
  current connection is set exactly in the states with a connection.
\<close>

fun visited :: "machine \<Rightarrow> input list \<Rightarrow> mstate list" where
  "visited m [] = [state m]"
| "visited m (e # es) =
     state m # (case step e m of Inl err \<Rightarrow> [] | Inr (r, m') \<Rightarrow> visited m' es)"

definition conn_inv :: "machine \<Rightarrow> bool" where
  "conn_inv m \<longleftrightarrow> (currentConnection m \<noteq> None \<longleftrightarrow> live (state m))"

section \<open>Outputs as record updates\<close>

lemma fire_each_detached:
  "fire_each detached v ws m = m\<lparr>fired := fired m @ map (\<lambda>w. (w, v)) ws\<rparr>"
  by (induction ws arbitrary: m) (simp_all add: detached_def)

lemma unawait_detached:
  "unawait detached v m =
     m\<lparr>awaitingConnected := [], fired := fired m @ map (\<lambda>w. (w, v)) (awaitingConnected m)\<rparr>"
  by (simp add: unawait_def fire_each_detached)

lemma finishStopping_eq:
  "finishStopping m =
     m\<lparr>stopWaiters := [], fired := fired m @ map (\<lambda>w. (w, FiredNone)) (stopWaiters m)\<rparr>"
  by (simp add: finishStopping_def fire_each_detached)

lemmas output_defs =
  enter_def connect_def resetFailedAttempts_def waitForStop_def stopRetrying_def
  disconnect_def notifyWaiters_def notifyInitialConnectionFailed_def wait_def wait1_def
  forgetConnection_def cancelConnectWaiters_def cancelConnectWaiters1_def
  finishStopping_eq finishStopping1_def currentConnection_output_def noConnection_def
  awaitingConnection_def deferredSucceededWithNone_def unawait_detached
  stopConnecting_def through_self_def plain_def collect_list_def collect_first_def
  returns_deferred_def returns_value_def returns_or_raises_def addErrback_def

section \<open>The control invariant\<close>

lemma ctrl_inv_init: "ctrl_inv (init pol)"
  by (simp add: ctrl_inv_def init_def)

lemma step_Start_ctrl:
  assumes "ctrl_inv m" and "step Start m = Inr (r, m')"
  shows "ctrl_inv m'"
  using assms
  by (cases "state m") (auto simp: step_def ctrl_inv_def output_defs Let_def)

lemma step_Stop_ctrl:
  assumes "ctrl_inv m" and "step Stop m = Inr (r, m')"
  shows "ctrl_inv m'"
  using assms
  by (cases "state m")
     (auto simp: step_def ctrl_inv_def output_defs Let_def split: option.splits if_splits)

lemma step_StartAndFail_ctrl:
  assumes "ctrl_inv m" and "step StartAndFailTheFirstTime m = Inr (r, m')"
  shows "ctrl_inv m'"
  using assms
  by (cases "state m") (auto simp: step_def ctrl_inv_def output_defs Let_def)

lemma step_ConnectionMade_ctrl:
  assumes "ctrl_inv m" and "step (ConnectionMade p) m = Inr (r, m')"
  shows "ctrl_inv m'"
  using assms
  by (cases "state m") (auto simp: step_def ctrl_inv_def output_defs Let_def split: if_splits)

lemma step_ConnectionFailed_ctrl:
  assumes "ctrl_inv m" and "step (ConnectionFailed f) m = Inr (r, m')"
  shows "ctrl_inv m'"
  using assms
  by (cases "state m") (auto simp: step_def ctrl_inv_def output_defs Let_def split: if_splits)

lemma step_Reconnect_ctrl:
  assumes "ctrl_inv m" and "step Reconnect m = Inr (r, m')"
  shows "ctrl_inv m'"
  using assms
  by (cases "state m") (auto simp: step_def ctrl_inv_def output_defs Let_def split: if_splits)

lemma step_ClientDisconnected_ctrl:
  assumes "ctrl_inv m" and "step ClientDisconnected m = Inr (r, m')"
  shows "ctrl_inv m'"
  using assms
  by (cases "state m")
     (auto simp: step_def ctrl_inv_def output_defs Let_def split: if_splits option.splits)

lemma step_WhenConnected_ctrl:
  assumes "ctrl_inv m" and "step WhenConnected m = Inr (r, m')"
  shows "ctrl_inv m'"
  using assms
  by (cases "state m")
     (auto simp: step_def ctrl_inv_def output_defs Let_def split: option.splits)

lemma step_ctrl_inv:
  assumes "ctrl_inv m" and "step e m = Inr (r, m')"
  shows "ctrl_inv m'"
  using assms
  by (cases e)
     (blast intro: step_Start_ctrl step_StartAndFail_ctrl step_Stop_ctrl
        step_ConnectionMade_ctrl step_ConnectionFailed_ctrl step_Reconnect_ctrl
        step_ClientDisconnected_ctrl step_WhenConnected_ctrl)+

lemma run_ctrl_inv:
  "ctrl_inv m \<Longrightarrow> run m es = Inr m' \<Longrightarrow> ctrl_inv m'"
proof (induction es arbitrary: m)
  case Nil
  then show ?case by simp
next
  case (Cons e es)
  then show ?case
    by (auto split: sum.splits dest: step_ctrl_inv)
qed

lemma reachable_ctrl_inv: "run (init pol) es = Inr m \<Longrightarrow> ctrl_inv m"
  using ctrl_inv_init run_ctrl_inv by blast

section \<open>The invariant of the Deferreds\<close>

lemma def_inv_init: "def_inv (init pol)"
  by (simp add: def_inv_def init_def)

lemma def_inv_frame [simp]:
  "def_inv (m\<lparr>state := s\<rparr>) = def_inv m"
  "def_inv (m\<lparr>failedAttempts := n\<rparr>) = def_inv m"
  "def_inv (m\<lparr>connectionInProgress := h\<rparr>) = def_inv m"
  "def_inv (m\<lparr>currentConnection := c\<rparr>) = def_inv m"
  "def_inv (m\<lparr>retryCall := rc\<rparr>) = def_inv m"
  "def_inv (m\<lparr>pendingConnects := pc\<rparr>) = def_inv m"
  "def_inv (m\<lparr>pendingCalls := cs\<rparr>) = def_inv m"
  "def_inv (m\<lparr>openConnections := oc\<rparr>) = def_inv m"
  "def_inv (m\<lparr>loseConnectionCalls := lc\<rparr>) = def_inv m"
  by (simp_all add: def_inv_def)

lemma def_inv_occur [simp]: "def_inv (occur e m) = def_inv m"
  by (cases e) simp_all

lemma def_inv_waitForStop: "def_inv m \<Longrightarrow> def_inv (snd (waitForStop m))"
  by (auto simp: def_inv_def waitForStop_def less_Suc_eq)

lemma def_inv_awaitingConnection: "def_inv m \<Longrightarrow> def_inv (snd (awaitingConnection m))"
  by (auto simp: def_inv_def awaitingConnection_def less_Suc_eq)

lemma def_inv_unawait: "def_inv m \<Longrightarrow> def_inv (unawait detached v m)"
  by (auto simp: def_inv_def unawait_detached comp_def)

lemma def_inv_finishStopping: "def_inv m \<Longrightarrow> def_inv (finishStopping m)"
  by (auto simp: def_inv_def finishStopping_eq comp_def)

lemma def_inv_simple [simp]:
  "def_inv (connect m) = def_inv m"
  "def_inv (resetFailedAttempts m) = def_inv m"
  "def_inv (wait m) = def_inv m"
  "def_inv (enter s m) = def_inv m"
  by (simp_all add: connect_def resetFailedAttempts_def wait_def enter_def Let_def)

lemma def_inv_notify:
  "def_inv m \<Longrightarrow> def_inv (notifyWaiters p m)"
  "def_inv m \<Longrightarrow> def_inv (notifyInitialConnectionFailed f m)"
  "def_inv m \<Longrightarrow> def_inv (cancelConnectWaiters m)"
  by (simp_all add: notifyWaiters_def notifyInitialConnectionFailed_def
        cancelConnectWaiters_def Let_def def_inv_unawait)

lemma def_inv_partial:
  "stopRetrying m = Inr m' \<Longrightarrow> def_inv m' = def_inv m"
  "disconnect m = Inr m' \<Longrightarrow> def_inv m' = def_inv m"
  "forgetConnection m = Inr m' \<Longrightarrow> def_inv m' = def_inv m"
  by (auto simp: stopRetrying_def disconnect_def forgetConnection_def
        split: option.splits if_splits)

lemma def_inv_run_outputs:
  assumes "\<And>out a b. out \<in> set outs \<Longrightarrow> def_inv a \<Longrightarrow> out a = Inr b \<Longrightarrow> def_inv b"
    and "def_inv m"
  shows "def_inv (snd (run_outputs outs m))"
  using assms
proof (induction outs arbitrary: m)
  case Nil
  then show ?case by simp
next
  case (Cons out outs)
  show ?case
  proof (cases "out m")
    case (Inl e)
    with Cons.prems(2) show ?thesis by simp
  next
    case (Inr m')
    have "def_inv m'"
      using Cons.prems(1) [of out m m'] Cons.prems(2) Inr by simp
    moreover have "def_inv b" if "o' \<in> set outs" "def_inv a" "o' a = Inr b" for o' a b
      using Cons.prems(1) [of o' a b] that by simp
    ultimately have "def_inv (snd (run_outputs outs m'))"
      by (rule Cons.IH [rotated])
    with Inr show ?thesis by simp
  qed
qed

lemma def_inv_collect_list:
  assumes "\<And>out a b. out \<in> set outs \<Longrightarrow> def_inv a \<Longrightarrow> out a = Inr b \<Longrightarrow> def_inv b"
    and "def_inv m"
  shows "def_inv (snd (collect_list outs m))"
proof -
  obtain err m' where r: "run_outputs outs m = (err, m')"
    by (cases "run_outputs outs m")
  have "def_inv (snd (run_outputs outs m))"
    using assms by (rule def_inv_run_outputs)
  with r have "def_inv m'" by simp
  with r show ?thesis
    by (cases err) (simp_all add: collect_list_def)
qed

lemma def_inv_collect_first:
  assumes "\<And>r a b. first a = Inr (r, b) \<Longrightarrow> def_inv a \<Longrightarrow> def_inv b"
    and "\<And>out a b. out \<in> set outs \<Longrightarrow> def_inv a \<Longrightarrow> out a = Inr b \<Longrightarrow> def_inv b"
    and "def_inv m"
  shows "def_inv (snd (collect_first first outs m))"
proof (cases "first m")
  case (Inl e)
  with assms(3) show ?thesis by (simp add: collect_first_def)
next
  case (Inr rm)
  obtain r m1 where rm: "rm = (r, m1)" by (cases rm)
  have "def_inv m1"
    using assms(1) [of m r m1] assms(3) Inr rm by simp
  obtain err m' where ro: "run_outputs outs m1 = (err, m')"
    by (cases "run_outputs outs m1")
  have "def_inv (snd (run_outputs outs m1))"
    using assms(2) \<open>def_inv m1\<close> by (rule def_inv_run_outputs)
  with ro have "def_inv m'" by simp
  with Inr rm ro show ?thesis
    by (cases err) (simp_all add: collect_first_def)
qed

lemma def_inv_plain:
  "(\<And>a. def_inv a \<Longrightarrow> def_inv (out a)) \<Longrightarrow> def_inv a \<Longrightarrow> plain out a = Inr b \<Longrightarrow> def_inv b"
  by (auto simp: plain_def)

lemma def_inv_through_self: "through_self out a = Inr b \<Longrightarrow> def_inv b"
  by (simp add: through_self_def)

lemma def_inv_upon_connectionFailed:
  "def_inv m \<Longrightarrow> def_inv (snd (upon_connectionFailed s f m))"
  by (cases s)
     (auto intro!: def_inv_collect_list
        simp: plain_def wait1_def cancelConnectWaiters1_def finishStopping1_def
          through_self_def def_inv_notify)

lemma def_inv_stopConnecting: "def_inv m \<Longrightarrow> def_inv (stopConnecting m)"
  by (simp add: stopConnecting_def def_inv_upon_connectionFailed split: handle.splits)

lemma def_inv_first:
  "returns_deferred waitForStop a = Inr (r, b) \<Longrightarrow> def_inv a \<Longrightarrow> def_inv b"
  "returns_deferred awaitingConnection a = Inr (r, b) \<Longrightarrow> def_inv a \<Longrightarrow> def_inv b"
  "returns_value v a = Inr (r, b) \<Longrightarrow> def_inv a \<Longrightarrow> def_inv b"
  "returns_or_raises w a = Inr (r, b) \<Longrightarrow> def_inv a \<Longrightarrow> def_inv b"
  using def_inv_waitForStop [of a] def_inv_awaitingConnection [of a]
  by (auto simp: returns_deferred_def returns_value_def returns_or_raises_def
        split: sum.splits)

lemma transition_def_inv:
  assumes "def_inv m"
  shows "def_inv (snd (transition s e m))"
  using assms
  by (cases s; cases e)
     (auto intro!: def_inv_collect_list def_inv_collect_first
        elim: def_inv_first
        simp: plain_def def_inv_notify def_inv_finishStopping def_inv_partial
          def_inv_stopConnecting def_inv_upon_connectionFailed
          wait1_def cancelConnectWaiters1_def finishStopping1_def through_self_def)

lemma def_inv_addErrback: "def_inv (snd rm) \<Longrightarrow> def_inv (snd (addErrback rm))"
  by (simp add: addErrback_def def_inv_upon_connectionFailed split: returned.splits)

lemma step_def_inv:
  assumes "def_inv m" and "step e m = Inr (r, m')"
  shows "def_inv m'"
proof -
  have t: "def_inv (snd (transition (state m) e (occur e m)))"
    using assms(1) by (simp add: transition_def_inv)
  show ?thesis
  proof (cases e)
    case (ConnectionMade p)
    with assms(2) have "m' = snd (addErrback (transition (state m) e (occur e m)))"
      by (auto simp: step_def split: if_splits)
    with t show ?thesis by (simp add: def_inv_addErrback)
  qed (use assms(2) t in \<open>auto simp: step_def split: if_splits\<close>)
qed

lemma run_def_inv:
  "def_inv m \<Longrightarrow> run m es = Inr m' \<Longrightarrow> def_inv m'"
proof (induction es arbitrary: m)
  case Nil
  then show ?case by simp
next
  case (Cons e es)
  then show ?case
    by (auto split: sum.splits dest: step_def_inv)
qed

lemma reachable_def_inv: "run (init pol) es = Inr m \<Longrightarrow> def_inv m"
  using def_inv_init run_def_inv by blast

section \<open>Properties of the retry policy\<close>

text \<open>
  C1. The claim reads the policy as \<open>min (initialDelay * factor ^ (n - 1)) maxDelay + j\<close>,
  with the delay in \<open>[min \<dots>, min \<dots> + 1)\<close>. The code raises \<open>factor\<close> to the power
  \<open>attempt\<close>, not \<open>attempt - 1\<close>: with the default parameters (1, 60, 3/2), a jitter of 0
  and the third attempt it returns 27/8, where the claimed value is 9/4 and the claimed
  interval \<open>[9/4, 13/4)\<close> does not contain 27/8.
\<close>

theorem backoffPolicy_exponent_off_by_one:
  "backoffPolicy 1 60 (3/2) noJitter 3 = 27/8
   \<and> min ((1::real) * (3/2) ^ (3 - 1)) 60 + noJitter () = 9/4
   \<and> \<not> (backoffPolicy 1 60 (3/2) noJitter 3 < min ((1::real) * (3/2) ^ (3 - 1)) 60 + 1)"
  by (simp add: backoffPolicy_def noJitter_def power3_eq_cube power2_eq_square)

section \<open>Properties of the machine\<close>

text \<open>
  C2. In every run from the initial state, an input other than a successful connection
  (\<open>ConnectionMade\<close>) leaves the counter of failed attempts unchanged or increments it by
  one, also when the input raises. The counter is incremented by \<^verbatim>\<open>_wait\<close> when a
  connection is lost; after a failed attempt in \<open>S_connecting\<close> the output \<^verbatim>\<open>_wait1\<close>
  raises and the counter is unchanged. The transition on \<open>Start\<close> in the state
  \<open>S_disconnecting\<close> resets the counter, and in every reachable machine in that state the
  counter is 0 already: the machine stays in \<open>S_disconnecting\<close> only after \<open>Stop\<close> in
  \<open>S_connected\<close>, where the counter was reset, since \<open>Stop\<close> during an attempt cancels the
  attempt and reaches \<open>S_stopped\<close> within the same input.
\<close>

theorem failedAttempts_never_decreases:
  assumes "run (init pol) es = Inr m"
    and "step e m = Inr (r, m')"
    and "\<forall>p. e \<noteq> ConnectionMade p"
  shows "failedAttempts m' = failedAttempts m \<or> failedAttempts m' = failedAttempts m + 1"
proof -
  have inv: "ctrl_inv m"
    using assms(1) by (rule reachable_ctrl_inv)
  show ?thesis
    using inv assms(2,3)
    by (cases e; cases "state m")
       (auto simp: step_def ctrl_inv_def output_defs Let_def
          split: if_splits option.splits)
qed

theorem failedAttempts_never_decreases_witness:
  "\<exists>m r m'. run (init fixedDelay)
       [Start, ConnectionMade (buildProtocol (factoryProxy testFactory) 0), Stop] = Inr m
     \<and> step Start m = Inr (r, m')
     \<and> state m = S_disconnecting \<and> state m' = S_restarting
     \<and> (failedAttempts m' = failedAttempts m \<or> failedAttempts m' = failedAttempts m + 1)"
proof -
  obtain m where m: "run (init fixedDelay)
       [Start, ConnectionMade (buildProtocol (factoryProxy testFactory) 0), Stop] = Inr m"
    and s: "state m = S_disconnecting"
    by (simp add: step_def init_def output_defs Let_def)
  obtain r m' where st: "step Start m = Inr (r, m')" and s': "state m' = S_restarting"
    using s by (simp add: step_def output_defs)
  have "\<forall>p. Start \<noteq> ConnectionMade p" by simp
  from failedAttempts_never_decreases [OF m st this] m st s s'
  show ?thesis by blast
qed

text \<open>
  C3. The claim that the current connection is set only in the state \<open>S_connected\<close> fails:
  after \<open>Start\<close>, a successful connection and \<open>Stop\<close>, the machine is in
  \<open>S_disconnecting\<close> and still holds the connection, which it forgets when the loss of the
  connection is reported.
\<close>

theorem currentConnection_kept_while_disconnecting:
  "map_sum id state (run (init fixedDelay)
       [Start, ConnectionMade (buildProtocol (factoryProxy testFactory) 0), Stop])
     = Inr S_disconnecting
   \<and> map_sum id currentConnection (run (init fixedDelay)
       [Start, ConnectionMade (buildProtocol (factoryProxy testFactory) 0), Stop])
     = Inr (Some (testFactory 0))"
  by (simp add: step_def init_def output_defs Let_def buildProtocol_def factoryProxy_def)

lemma step_conn_inv:
  assumes "ctrl_inv m" and "conn_inv m" and "step e m = Inr (r, m')"
    and "state m \<noteq> S_restarting \<or> e \<noteq> ClientDisconnected"
  shows "conn_inv m'"
  using assms
  by (cases e; cases "state m")
     (auto simp: step_def ctrl_inv_def conn_inv_def output_defs Let_def
        split: if_splits option.splits)

lemma run_conn_inv:
  assumes "ctrl_inv m0" and "conn_inv m0" and "run m0 es = Inr m"
    and "S_restarting \<notin> set (visited m0 es)"
  shows "conn_inv m"
  using assms
proof (induction es arbitrary: m0)
  case Nil
  then show ?case by simp
next
  case (Cons e es)
  from Cons.prems(3) obtain r m' where st: "step e m0 = Inr (r, m')"
    and rest: "run m' es = Inr m"
    by (auto split: sum.splits)
  from Cons.prems(4) st have ns: "state m0 \<noteq> S_restarting"
    and nv: "S_restarting \<notin> set (visited m' es)"
    by auto
  have "ctrl_inv m'"
    using Cons.prems(1) st by (rule step_ctrl_inv)
  moreover have "conn_inv m'"
    using Cons.prems(1,2) st ns by (auto intro: step_conn_inv)
  ultimately show ?case
    using rest nv by (rule Cons.IH)
qed

lemma run_visited: "run m0 es = Inr m \<Longrightarrow> state m \<in> set (visited m0 es)"
  by (induction es arbitrary: m0) (auto split: sum.splits)

text \<open>
  C3, as amended. In every reachable machine the current connection is set in the states
  \<open>S_connected\<close>, \<open>S_disconnecting\<close> and \<open>S_restarting\<close>, and is absent in the states
  \<open>S_init\<close> and \<open>S_connecting_first_time\<close>. In a run that has not gone through
  \<open>S_restarting\<close> it is set if and only if the state is \<open>S_connected\<close> or
  \<open>S_disconnecting\<close>.
\<close>

theorem currentConnection_by_state:
  assumes "run (init pol) es = Inr m"
  shows "(state m = S_connected \<or> state m = S_disconnecting \<or> state m = S_restarting
            \<longrightarrow> currentConnection m \<noteq> None)
       \<and> (state m = S_init \<or> state m = S_connecting_first_time
            \<longrightarrow> currentConnection m = None)
       \<and> (S_restarting \<notin> set (visited (init pol) es) \<longrightarrow>
            (currentConnection m \<noteq> None
               \<longleftrightarrow> state m = S_connected \<or> state m = S_disconnecting))"
proof -
  have c: "ctrl_inv m"
    using assms by (rule reachable_ctrl_inv)
  have "conn_inv m" if "S_restarting \<notin> set (visited (init pol) es)"
    using ctrl_inv_init _ assms that
    by (rule run_conn_inv) (simp add: conn_inv_def init_def)
  moreover have "state m \<in> set (visited (init pol) es)"
    using assms by (rule run_visited)
  ultimately show ?thesis
    using c by (cases "state m") (auto simp: ctrl_inv_def conn_inv_def)
qed

theorem currentConnection_by_state_witness:
  "\<exists>m. run (init fixedDelay)
       [Start, ConnectionMade (buildProtocol (factoryProxy testFactory) 0), Stop] = Inr m
     \<and> S_restarting \<notin> set (visited (init fixedDelay)
           [Start, ConnectionMade (buildProtocol (factoryProxy testFactory) 0), Stop])
     \<and> state m = S_disconnecting \<and> currentConnection m \<noteq> None"
proof -
  obtain m where m: "run (init fixedDelay)
       [Start, ConnectionMade (buildProtocol (factoryProxy testFactory) 0), Stop] = Inr m"
    and s: "state m = S_disconnecting"
    by (simp add: step_def init_def output_defs Let_def)
  have v: "S_restarting \<notin> set (visited (init fixedDelay)
           [Start, ConnectionMade (buildProtocol (factoryProxy testFactory) 0), Stop])"
    by (simp add: step_def init_def output_defs Let_def)
  from currentConnection_by_state [OF m] m s v show ?thesis by blast
qed

text \<open>
  C9. In every reachable machine at most one connection attempt is pending and at most one
  delayed call is pending; an attempt is pending only in the two connecting states and a
  delayed call only in \<open>S_waiting\<close>. Hence an input that starts an attempt finds none
  pending, and an input that schedules a call finds none pending.
\<close>

theorem single_attempt_single_timer:
  assumes "run (init pol) es = Inr m"
    and "step e m = Inr (r, m')"
  shows "pendingConnects m \<le> 1 \<and> length (pendingCalls m) \<le> 1
       \<and> (pendingConnects m \<noteq> 0 \<longrightarrow> state m = S_connecting_first_time \<or> state m = S_connecting)
       \<and> (pendingCalls m \<noteq> [] \<longrightarrow> state m = S_waiting)
       \<and> pendingConnects m' \<le> 1 \<and> length (pendingCalls m') \<le> 1
       \<and> (pendingConnects m < pendingConnects m' \<longrightarrow> pendingConnects m = 0)
       \<and> (length (pendingCalls m) < length (pendingCalls m') \<longrightarrow> pendingCalls m = [])
       \<and> (state m = S_waiting \<and> state m' \<noteq> S_waiting \<longrightarrow> pendingCalls m' = [])"
proof -
  have inv: "ctrl_inv m"
    using assms(1) by (rule reachable_ctrl_inv)
  then have inv': "ctrl_inv m'"
    using assms(2) by (rule step_ctrl_inv)
  have a: "pendingConnects m \<le> 1 \<and> length (pendingCalls m) \<le> 1
       \<and> (pendingConnects m \<noteq> 0 \<longrightarrow> state m = S_connecting_first_time \<or> state m = S_connecting)
       \<and> (pendingCalls m \<noteq> [] \<longrightarrow> state m = S_waiting)"
    using inv by (cases "state m") (auto simp: ctrl_inv_def)
  have b: "pendingConnects m' \<le> 1 \<and> length (pendingCalls m') \<le> 1
       \<and> (state m' \<noteq> S_waiting \<longrightarrow> pendingCalls m' = [])"
    using inv' by (cases "state m'") (auto simp: ctrl_inv_def)
  from a b show ?thesis
    by (cases "pendingCalls m") auto
qed

theorem single_attempt_single_timer_witness:
  "\<exists>m r m'. run (init fixedDelay)
       [Start, ConnectionMade (buildProtocol (factoryProxy testFactory) 0), ClientDisconnected]
       = Inr m
     \<and> step Reconnect m = Inr (r, m')
     \<and> state m = S_waiting \<and> state m' = S_connecting
     \<and> pendingCalls m = [1] \<and> pendingCalls m' = []
     \<and> pendingConnects m = 0 \<and> pendingConnects m' = 1"
proof -
  obtain m where m: "run (init fixedDelay)
       [Start, ConnectionMade (buildProtocol (factoryProxy testFactory) 0), ClientDisconnected]
       = Inr m"
    and s: "state m = S_waiting" "pendingCalls m = [1]" "pendingConnects m = 0"
    by (simp add: step_def init_def output_defs Let_def fixedDelay_def)
  obtain r m' where st: "step Reconnect m = Inr (r, m')"
    and s': "state m' = S_connecting" "pendingConnects m' = 1"
    using s by (simp add: step_def output_defs)
  from single_attempt_single_timer [OF m st] m st s s'
  show ?thesis by auto
qed

text \<open>
  C5. In every reachable machine \<open>WhenConnected\<close> is accepted and leaves the state
  unchanged. In \<open>S_connected\<close> it returns a Deferred that has fired with the current
  connection, in \<open>S_stopped\<close> one that has failed with \<open>CancelledError\<close>, and in both the
  machine is unchanged; in every other state it returns a new Deferred, which has not
  fired and was not waiting before, appended to the waiters.
\<close>

theorem whenConnected_by_state:
  assumes "run (init pol) es = Inr m"
  shows "\<exists>r m'. step WhenConnected m = Inr (r, m') \<and> state m' = state m
       \<and> (state m = S_connected \<longrightarrow>
            (\<exists>p. currentConnection m = Some p \<and> r = AlreadyFired (Protocol p)) \<and> m' = m)
       \<and> (state m = S_stopped \<longrightarrow> r = AlreadyFired (Failed CancelledError) \<and> m' = m)
       \<and> (state m \<noteq> S_connected \<and> state m \<noteq> S_stopped \<longrightarrow>
            r = TheDeferred (nextDeferred m)
            \<and> awaitingConnected m' = awaitingConnected m @ [nextDeferred m]
            \<and> fired m' = fired m
            \<and> nextDeferred m \<notin> fst ` set (fired m)
            \<and> nextDeferred m \<notin> set (awaitingConnected m))"
proof -
  have c: "ctrl_inv m"
    using assms by (rule reachable_ctrl_inv)
  have "def_inv m"
    using assms by (rule reachable_def_inv)
  then have fresh: "nextDeferred m \<notin> fst ` set (fired m)"
      "nextDeferred m \<notin> set (awaitingConnected m)"
    by (auto simp: def_inv_def)
  show ?thesis
    using c fresh
    by (cases "state m")
       (auto simp: step_def ctrl_inv_def output_defs)
qed

theorem whenConnected_by_state_witness:
  "\<exists>m r m'. run (init fixedDelay) [WhenConnected, Start] = Inr m
     \<and> step WhenConnected m = Inr (r, m')
     \<and> state m = S_connecting \<and> state m' = S_connecting
     \<and> r = TheDeferred 1 \<and> awaitingConnected m' = [0, 1]"
proof -
  obtain m where m: "run (init fixedDelay) [WhenConnected, Start] = Inr m"
    and s: "state m = S_connecting" "nextDeferred m = 1" "awaitingConnected m = [0]"
    by (simp add: step_def init_def output_defs Let_def)
  from whenConnected_by_state [OF m] m s show ?thesis by auto
qed

text \<open>
  C10. When the attempt of a reachable machine succeeds with the proxy that the factory
  proxy built for an address, the machine stores the protocol that the application's
  factory built for that address: every waiter pending at that moment fires with it, and
  after any later inputs \<open>Start\<close> and \<open>WhenConnected\<close> the machine is the same and
  \<open>WhenConnected\<close> returns a Deferred that has fired with that protocol.
\<close>

theorem consumers_get_unwrapped_protocol:
  assumes "run (init pol) es = Inr m"
    and "step (ConnectionMade (buildProtocol fp addr)) m = Inr (r, m1)"
    and "set us \<subseteq> {Start, WhenConnected}"
  shows "state m1 = S_connected
       \<and> currentConnection m1 = Some (protocolFactory fp addr)
       \<and> fired m1 = fired m @ map (\<lambda>w. (w, Protocol (protocolFactory fp addr))) (awaitingConnected m)
       \<and> awaitingConnected m1 = []
       \<and> run m1 us = Inr m1
       \<and> step WhenConnected m1 = Inr (AlreadyFired (Protocol (protocolFactory fp addr)), m1)"
proof -
  have c: "ctrl_inv m"
    using assms(1) by (rule reachable_ctrl_inv)
  have m1: "state m1 = S_connected
       \<and> currentConnection m1 = Some (protocolFactory fp addr)
       \<and> fired m1 = fired m @ map (\<lambda>w. (w, Protocol (protocolFactory fp addr))) (awaitingConnected m)
       \<and> awaitingConnected m1 = []"
    using c assms(2)
    by (cases "state m")
       (auto simp: step_def ctrl_inv_def output_defs buildProtocol_def Let_def
          split: if_splits)
  have same: "step e m1 = Inr (r', m') \<Longrightarrow> e = Start \<or> e = WhenConnected \<Longrightarrow> m' = m1"
    for e r' m'
    using m1 by (auto simp: step_def output_defs)
  have ok: "e = Start \<or> e = WhenConnected \<Longrightarrow> \<exists>r'. step e m1 = Inr (r', m1)" for e
    using m1 by (auto simp: step_def output_defs)
  have "set us \<subseteq> {Start, WhenConnected} \<Longrightarrow> run m1 us = Inr m1"
  proof (induction us)
    case Nil
    then show ?case by simp
  next
    case (Cons e us)
    then have "e = Start \<or> e = WhenConnected" by simp
    then obtain r' where "step e m1 = Inr (r', m1)" using ok by blast
    with Cons show ?case by simp
  qed
  moreover have "step WhenConnected m1 = Inr (AlreadyFired (Protocol (protocolFactory fp addr)), m1)"
    using m1 by (simp add: step_def output_defs)
  ultimately show ?thesis
    using m1 assms(3) by simp
qed

theorem consumers_get_unwrapped_protocol_witness:
  "\<exists>m r m1. run (init fixedDelay) [WhenConnected, Start, WhenConnected] = Inr m
     \<and> step (ConnectionMade (buildProtocol (factoryProxy testFactory) 5)) m = Inr (r, m1)
     \<and> fired m1 = [(0, Protocol 105), (1, Protocol 105)]
     \<and> run m1 [WhenConnected, Start] = Inr m1
     \<and> step WhenConnected m1 = Inr (AlreadyFired (Protocol 105), m1)"
proof -
  obtain m where m: "run (init fixedDelay) [WhenConnected, Start, WhenConnected] = Inr m"
    and s: "state m = S_connecting" "connectionInProgress m = Unfired"
      "awaitingConnected m = [0, 1]" "fired m = []"
    by (simp add: step_def init_def output_defs Let_def)
  obtain r m1 where
    st: "step (ConnectionMade (buildProtocol (factoryProxy testFactory) 5)) m = Inr (r, m1)"
    using s by (simp add: step_def output_defs Let_def)
  have us: "set [WhenConnected, Start] \<subseteq> {Start, WhenConnected}" by simp
  from consumers_get_unwrapped_protocol [OF m st us] m st s
  show ?thesis
    by (auto simp: factoryProxy_def testFactory_def)
qed

section \<open>Properties of the proxy\<close>

text \<open>
  C4. The claim that the notification is invoked before the close event is passed on to
  the wrapped protocol fails: the \<^verbatim>\<open>try\<close> body calls the protocol's \<^verbatim>\<open>connectionLost\<close>
  first, and the notification runs in the \<^verbatim>\<open>finally\<close> block.
\<close>

theorem notification_not_before_protocol:
  "\<not> precedes (LostNotification 7) (ProtocolConnectionLost (testFactory 0) 7)
       (snd (connectionLost quietProtocol (buildProtocol (factoryProxy testFactory) 0) 7))
   \<and> precedes (ProtocolConnectionLost (testFactory 0) 7) (LostNotification 7)
       (snd (connectionLost quietProtocol (buildProtocol (factoryProxy testFactory) 0) 7))"
  by (simp add: precedes_def connectionLost_def buildProtocol_def factoryProxy_def
        testFactory_def Let_def split: sum.splits)

text \<open>
  C4, as amended. For every wrapped protocol and every reason, \<^verbatim>\<open>connectionLost\<close> of the
  proxy makes two calls: the protocol's \<^verbatim>\<open>connectionLost\<close> with the reason and then, once,
  the notification with the same reason, also when the protocol's method raises. If the
  notification returns, the outcome of the proxy's method is that of the protocol's
  method; if it raises, its exception is the outcome.
\<close>

theorem connectionLost_notifies_after_protocol:
  "snd (connectionLost pcl self reason)
     = [ProtocolConnectionLost (protocol self) reason, LostNotification reason]
   \<and> (\<forall>u. lostNotification self reason = Inr u \<longrightarrow>
         fst (connectionLost pcl self reason) = pcl (protocol self) reason)
   \<and> (\<forall>e. lostNotification self reason = Inl e \<longrightarrow>
         fst (connectionLost pcl self reason) = Inl e)"
  by (simp add: connectionLost_def Let_def split: sum.splits)

theorem connectionLost_notifies_after_protocol_witness:
  "lostNotification (buildProtocol (factoryProxy testFactory) 0) 7 = Inr ()
   \<and> fst (connectionLost quietProtocol (buildProtocol (factoryProxy testFactory) 0) 7) = Inr 0
   \<and> snd (connectionLost quietProtocol (buildProtocol (factoryProxy testFactory) 0) 7)
       = [ProtocolConnectionLost 100 7, LostNotification 7]"
proof -
  have n: "lostNotification (buildProtocol (factoryProxy testFactory) 0) 7 = Inr ()"
    by (simp add: buildProtocol_def factoryProxy_def)
  from connectionLost_notifies_after_protocol
         [of quietProtocol "buildProtocol (factoryProxy testFactory) 0" 7] n
  show ?thesis
    by (simp add: quietProtocol_def buildProtocol_def factoryProxy_def testFactory_def)
qed

section \<open>Properties of the waiters\<close>

lemma upt_head: "a # [Suc a ..< Suc (a + n)] = [a ..< Suc (a + n)]"
  by (rule upt_conv_Cons [symmetric]) simp

lemma register_n_eq:
  "register_n n m =
     m\<lparr>awaitingConnected := awaitingConnected m @ [nextDeferred m ..< nextDeferred m + n],
       nextDeferred := nextDeferred m + n\<rparr>"
proof (induction n arbitrary: m)
  case 0
  then show ?case by simp
next
  case (Suc n)
  let ?m1 = "snd (awaitingConnection m)"
  have a: "awaitingConnected ?m1 = awaitingConnected m @ [nextDeferred m]"
    and b: "nextDeferred ?m1 = Suc (nextDeferred m)"
    by (simp_all add: awaitingConnection_def)
  have "register_n (Suc n) m = register_n n ?m1" by simp
  also have "\<dots> = ?m1\<lparr>awaitingConnected := awaitingConnected ?m1 @ [nextDeferred ?m1 ..< nextDeferred ?m1 + n],
       nextDeferred := nextDeferred ?m1 + n\<rparr>"
    by (rule Suc)
  also have "\<dots> = ?m1\<lparr>awaitingConnected := awaitingConnected m @ [nextDeferred m ..< Suc (nextDeferred m + n)],
       nextDeferred := Suc (nextDeferred m + n)\<rparr>"
    unfolding a b using upt_head [of "nextDeferred m" n] by (simp del: upt_Suc)
  also have "\<dots> = m\<lparr>awaitingConnected := awaitingConnected m @ [nextDeferred m ..< Suc (nextDeferred m + n)],
       nextDeferred := Suc (nextDeferred m + n)\<rparr>"
    by (simp add: awaitingConnection_def del: upt_Suc)
  finally show ?case by (simp del: upt_Suc)
qed


lemma fire_each_registering:
  "fire_each (registering k) v ws m =
     m\<lparr>fired := fired m @ map (\<lambda>w. (w, v)) ws,
       awaitingConnected := awaitingConnected m
          @ [nextDeferred m ..< nextDeferred m + sum_list (map k ws)],
       nextDeferred := nextDeferred m + sum_list (map k ws)\<rparr>"
proof (induction ws arbitrary: m)
  case Nil
  then show ?case by simp
next
  case (Cons w ws)
  let ?n = "nextDeferred m"
  have "[?n ..< ?n + k w] @ [?n + k w ..< ?n + k w + sum_list (map k ws)]
        = [?n ..< ?n + k w + sum_list (map k ws)]"
    by (rule upt_add_eq_append [symmetric]) simp
  moreover have "registering k w m' = register_n (k w) m'" for m'
    by (simp add: registering_def)
  ultimately show ?case
    by (simp add: Cons register_n_eq add.assoc del: upt_Suc)
qed

lemma upt_fresh:
  assumes "\<And>x. x \<in> S \<Longrightarrow> x < a"
  shows "set [a ..< b] \<inter> S = {}"
proof -
  have "x \<in> set [a ..< b] \<Longrightarrow> x \<notin> S" for x
    using assms [of x] by auto
  then show ?thesis by blast
qed

text \<open>
  C8. \<^verbatim>\<open>_unawait\<close> fires exactly the Deferreds that were waiting when it was called, in
  the order of their registration and with the value it was given. The waiters that the
  callbacks register while it runs are not fired by it: they are the waiters of the machine
  afterwards, each a new Deferred that has not fired.
\<close>

theorem unawait_drains_before_firing:
  assumes "\<forall>d \<in> fst ` set (fired m). d < nextDeferred m"
    and "\<forall>d \<in> set (awaitingConnected m). d < nextDeferred m"
  shows "fired (unawait (registering k) v m)
           = fired m @ map (\<lambda>w. (w, v)) (awaitingConnected m)
       \<and> awaitingConnected (unawait (registering k) v m)
           = [nextDeferred m ..< nextDeferred m + sum_list (map k (awaitingConnected m))]
       \<and> set (awaitingConnected (unawait (registering k) v m))
           \<inter> fst ` set (fired (unawait (registering k) v m)) = {}"
proof -
  have eq: "unawait (registering k) v m =
     m\<lparr>fired := fired m @ map (\<lambda>w. (w, v)) (awaitingConnected m),
       awaitingConnected := [nextDeferred m ..< nextDeferred m + sum_list (map k (awaitingConnected m))],
       nextDeferred := nextDeferred m + sum_list (map k (awaitingConnected m))\<rparr>"
    by (simp add: unawait_def fire_each_registering del: upt_Suc)
  have "x \<in> fst ` set (fired m @ map (\<lambda>w. (w, v)) (awaitingConnected m)) \<Longrightarrow> x < nextDeferred m"
    for x
    using assms by (auto simp: image_Un)
  then have "set [nextDeferred m ..< nextDeferred m + sum_list (map k (awaitingConnected m))]
               \<inter> fst ` set (fired m @ map (\<lambda>w. (w, v)) (awaitingConnected m)) = {}"
    by (rule upt_fresh)
  with eq show ?thesis by (simp del: upt_Suc set_upt)
qed

theorem unawait_drains_before_firing_witness:
  "\<exists>m. run (init fixedDelay) [WhenConnected, WhenConnected, Start] = Inr m
     \<and> fired (unawait (registering (\<lambda>w. 1)) (Protocol 100) m)
         = [(0, Protocol 100), (1, Protocol 100)]
     \<and> awaitingConnected (unawait (registering (\<lambda>w. 1)) (Protocol 100) m) = [2, 3]"
proof -
  obtain m where m: "run (init fixedDelay) [WhenConnected, WhenConnected, Start] = Inr m"
    and s: "fired m = []" "awaitingConnected m = [0, 1]" "nextDeferred m = 2"
    by (simp add: step_def init_def output_defs Let_def)
  have a: "\<forall>d \<in> fst ` set (fired m). d < nextDeferred m"
    using s by simp
  have b: "\<forall>d \<in> set (awaitingConnected m). d < nextDeferred m"
    using s by simp
  have c: "[2 ..< 2 + (1 + 1)] = [2::nat, 3]"
    by (simp add: upt_conv_Cons)
  from unawait_drains_before_firing [OF a b, of "\<lambda>w. 1" "Protocol 100"]
  have "fired (unawait (registering (\<lambda>w. 1)) (Protocol 100) m)
         = [(0, Protocol 100), (1, Protocol 100)]
     \<and> awaitingConnected (unawait (registering (\<lambda>w. 1)) (Protocol 100) m) = [2, 3]"
    using c by (simp add: s del: upt_Suc)
  with m show ?thesis by blast
qed

section \<open>Failing the first time\<close>

lemma first_time_stays:
  assumes "ctrl_inv m" and "state m = S_connecting_first_time"
    and "set us \<subseteq> {Start, WhenConnected}"
  shows "\<exists>m1. run m us = Inr m1 \<and> state m1 = S_connecting_first_time \<and> ctrl_inv m1
           \<and> set (awaitingConnected m) \<subseteq> set (awaitingConnected m1)"
  using assms
proof (induction us arbitrary: m)
  case Nil
  then show ?case by simp
next
  case (Cons e us)
  from Cons.prems(3) have e: "e = Start \<or> e = WhenConnected" by simp
  with Cons.prems(2) have "\<exists>r m'. step e m = Inr (r, m')
      \<and> state m' = S_connecting_first_time
      \<and> set (awaitingConnected m) \<subseteq> set (awaitingConnected m')"
    by (auto simp: step_def output_defs)
  then obtain r m' where st: "step e m = Inr (r, m')"
    and s: "state m' = S_connecting_first_time"
    and a: "set (awaitingConnected m) \<subseteq> set (awaitingConnected m')"
    by blast
  have "ctrl_inv m'"
    using Cons.prems(1) st by (rule step_ctrl_inv)
  with Cons.IH [of m'] s Cons.prems(3) obtain m1 where
    "run m' us = Inr m1" "state m1 = S_connecting_first_time" "ctrl_inv m1"
    "set (awaitingConnected m') \<subseteq> set (awaitingConnected m1)"
    by auto
  with st a show ?case by auto
qed

text \<open>
  C6. From a reachable machine in the state \<open>S_init\<close>, after \<open>StartAndFailTheFirstTime\<close>
  and any further inputs \<open>Start\<close> and \<open>WhenConnected\<close>, the failure \<open>f\<close> of the attempt is
  accepted and leads to \<open>S_stopped\<close>; no delayed call is pending, and every Deferred that
  was waiting, those that waited before the start among them, fires with \<open>f\<close>.
\<close>

theorem first_failure_is_final:
  assumes "run (init pol) es = Inr m0"
    and "state m0 = S_init"
    and "set us \<subseteq> {Start, WhenConnected}"
  shows "\<exists>m1 r m2. run m0 (StartAndFailTheFirstTime # us) = Inr m1
       \<and> state m1 = S_connecting_first_time
       \<and> set (awaitingConnected m0) \<subseteq> set (awaitingConnected m1)
       \<and> step (ConnectionFailed f) m1 = Inr (r, m2)
       \<and> state m2 = S_stopped
       \<and> pendingCalls m1 = [] \<and> pendingCalls m2 = []
       \<and> awaitingConnected m2 = []
       \<and> fired m2 = fired m1 @ map (\<lambda>w. (w, Failed f)) (awaitingConnected m1)"
proof -
  have c0: "ctrl_inv m0"
    using assms(1) by (rule reachable_ctrl_inv)
  obtain r0 m' where st: "step StartAndFailTheFirstTime m0 = Inr (r0, m')"
    and s': "state m' = S_connecting_first_time"
    and a': "awaitingConnected m' = awaitingConnected m0"
    using assms(2) by (simp add: step_def output_defs)
  have "ctrl_inv m'"
    using c0 st by (rule step_ctrl_inv)
  from first_time_stays [OF this s' assms(3)] obtain m1 where
    m1: "run m' us = Inr m1" "state m1 = S_connecting_first_time" "ctrl_inv m1"
      "set (awaitingConnected m') \<subseteq> set (awaitingConnected m1)"
    by auto
  have run1: "run m0 (StartAndFailTheFirstTime # us) = Inr m1"
    using st m1(1) by simp
  have p1: "pendingCalls m1 = []" and u: "connectionInProgress m1 = Unfired"
    using m1(2,3) by (simp_all add: ctrl_inv_def)
  obtain r m2 where st2: "step (ConnectionFailed f) m1 = Inr (r, m2)"
    and m2: "state m2 = S_stopped" "pendingCalls m2 = []" "awaitingConnected m2 = []"
      "fired m2 = fired m1 @ map (\<lambda>w. (w, Failed f)) (awaitingConnected m1)"
    using m1(2) p1 u
    by (simp add: step_def output_defs)
  from run1 m1(2,4) a' st2 m2 p1 show ?thesis by auto
qed

theorem first_failure_is_final_witness:
  "\<exists>m0 m1 r m2. run (init fixedDelay) [WhenConnected] = Inr m0 \<and> state m0 = S_init
     \<and> run m0 [StartAndFailTheFirstTime, WhenConnected] = Inr m1
     \<and> step (ConnectionFailed (ConnectError 9)) m1 = Inr (r, m2)
     \<and> state m2 = S_stopped \<and> pendingCalls m2 = []
     \<and> fired m2 = [(0, Failed (ConnectError 9)), (1, Failed (ConnectError 9))]"
proof -
  obtain m0 where m0: "run (init fixedDelay) [WhenConnected] = Inr m0"
    and s0: "state m0 = S_init" "awaitingConnected m0 = [0]" "nextDeferred m0 = 1"
      "fired m0 = []"
    by (simp add: step_def init_def output_defs Let_def)
  have us: "set [WhenConnected] \<subseteq> {Start, WhenConnected}" by simp
  from first_failure_is_final [OF m0 s0(1) us, of "ConnectError 9"] obtain m1 r m2 where
    a: "run m0 [StartAndFailTheFirstTime, WhenConnected] = Inr m1"
      "step (ConnectionFailed (ConnectError 9)) m1 = Inr (r, m2)"
      "state m2 = S_stopped" "pendingCalls m2 = []"
      "fired m2 = fired m1 @ map (\<lambda>w. (w, Failed (ConnectError 9))) (awaitingConnected m1)"
    by blast
  have "fired m1 = [] \<and> awaitingConnected m1 = [0, 1]"
    using a(1) s0 by (auto simp: step_def output_defs Let_def)
  with m0 s0(1) a show ?thesis by auto
qed

section \<open>Stopping\<close>

text \<open>
  C7. The claim that every call of \<open>Stop\<close> yields a completion signal that fires fails in
  the code when \<open>Stop\<close> is called during a connection attempt. After \<open>Start\<close>, \<open>Stop\<close>
  returns the Deferred 0 and cancels the attempt; the errback \<^verbatim>\<open>_connectionFailed\<close> enters
  \<open>S_stopped\<close> and its first output \<^verbatim>\<open>_cancelConnectWaiters1\<close> raises, so
  \<^verbatim>\<open>_finishStopping1\<close> does not run: the machine is in \<open>S_stopped\<close> and the signal waits,
  unfired, and a second \<open>Stop\<close> returns a signal that has fired and leaves the first one
  waiting. On the sibling path, \<open>Stop\<close> in \<open>S_connected\<close> asks the transport once to lose
  the connection, and when the loss is reported \<^verbatim>\<open>_finishStopping\<close> fires the signal.
\<close>

theorem stop_during_attempt_leaves_signal_pending:
  "(\<exists>m1 m2 m3. run (init fixedDelay) [Start] = Inr m1
       \<and> step Stop m1 = Inr (TheDeferred 0, m2)
       \<and> state m2 = S_stopped \<and> stopWaiters m2 = [0] \<and> fired m2 = []
       \<and> pending m2 (TheDeferred 0) \<and> \<not> resolved m2 (TheDeferred 0)
       \<and> step Stop m2 = Inr (AlreadyFired FiredNone, m3)
       \<and> state m3 = S_stopped
       \<and> pending m3 (TheDeferred 0) \<and> \<not> resolved m3 (TheDeferred 0))
   \<and> (\<exists>c1 c2 r c3. run (init fixedDelay)
           [Start, ConnectionMade (buildProtocol (factoryProxy testFactory) 0)] = Inr c1
       \<and> step Stop c1 = Inr (TheDeferred 0, c2)
       \<and> state c2 = S_disconnecting \<and> loseConnectionCalls c2 = 1
       \<and> pending c2 (TheDeferred 0)
       \<and> step ClientDisconnected c2 = Inr (r, c3)
       \<and> state c3 = S_stopped \<and> resolved c3 (TheDeferred 0))"
  by (simp add: step_def init_def output_defs Let_def)

end
